theory Spec2Isabelle
  imports Main "HOL-Library.Word"
begin

unbundle bit_operations_syntax

section \<open>nslookup.c: data model\<close>

type_synonym u8 = "8 word"

text \<open>
  Memory seen through a C pointer is a function from the offset (in bytes, from the
  pointer) to the byte stored there. It is total: the C code can form and dereference
  any offset, and what lies beyond the part of an array that was written is whatever
  the memory holds.
\<close>

type_synonym memory = "nat \<Rightarrow> u8"

text \<open>
  The array \<open>response\<close> of \<open>main\<close> after a datagram \<open>data\<close> was received into it:
  the datagram's bytes, followed by what the memory held before (\<open>stale\<close>).
\<close>

definition buf_mem :: "u8 list \<Rightarrow> memory \<Rightarrow> memory" where
  "buf_mem data stale = (\<lambda>i. if i < length data then data ! i else stale i)"

text \<open>
  What the program does besides computing values is recorded, in order, as a trace of
  events: every byte \<open>dns_parse\<close> reads (by its offset from the message start), every
  call of the per-record callback (record type, offset of the resource data, its length,
  offset of the record's start), every line written to the error stream, every system and
  library call of the exchange, and the two calls \<open>main\<close> makes for query number \<open>i\<close>.
\<close>

datatype event =
    Rd nat
  | Cb nat nat nat nat
  | Stderr string
  | Socket int
  | Bind int
  | Sendto int "u8 list"
  | Poll int int
  | Recvfrom int nat
  | Close int
  | Resolve string
  | FreeAddrInfo
  | ResSend "u8 list"
  | Exchange nat
  | Parse nat

type_synonym trace = "event list"

definition RR_TYPE_A :: nat where "RR_TYPE_A = 1"
definition RR_TYPE_CNAME :: nat where "RR_TYPE_CNAME = 5"
definition RR_TYPE_PTR :: nat where "RR_TYPE_PTR = 12"
definition RR_TYPE_AAAA :: nat where "RR_TYPE_AAAA = 28"
definition POLL_TIMEOUT :: int where "POLL_TIMEOUT = 5000"
definition MAXREVLEN :: nat where "MAXREVLEN = 73"

section \<open>dns_parse\<close>

text \<open>
  \<open>while (p-r < rlen && *p-1U < 127) p++;\<close>
  The byte is promoted and \<open>1U\<close> subtracted in unsigned 32-bit arithmetic, so a zero byte
  wraps to \<open>2^32 - 1\<close> and ends the loop. \<open>*p\<close> is read only when \<open>p-r < rlen\<close> holds.
\<close>

function skip_labels :: "memory \<Rightarrow> int \<Rightarrow> nat \<Rightarrow> trace \<Rightarrow> nat \<times> trace" where
  "skip_labels r rlen p tr =
     (if int p < rlen then
        (if (ucast (r p) :: 32 word) - 1 < 127
         then skip_labels r rlen (p + 1) (tr @ [Rd p])
         else (p, tr @ [Rd p]))
      else (p, tr))"
  by pat_completeness auto
termination
  by (relation "measure (\<lambda>(r, rlen, p, tr). nat (rlen - int p))") auto

declare skip_labels.simps [simp del]

text \<open>
  \<open>if (*p>193 || (*p==193 && p[1]>254) || p>r+rlen-6) return -1;\<close>
  with C's short-circuit evaluation: \<open>p[1]\<close> is read only when \<open>*p\<close> is 193.
\<close>

definition bad_name :: "memory \<Rightarrow> int \<Rightarrow> nat \<Rightarrow> trace \<Rightarrow> bool \<times> trace" where
  "bad_name r rlen p tr =
     (if unat (r p) > 193 then (True, tr @ [Rd p])
      else if unat (r p) = 193 then
        (if unat (r (p + 1)) > 254 then (True, tr @ [Rd p, Rd p, Rd (p + 1)])
         else (int p > rlen - 6, tr @ [Rd p, Rd p, Rd (p + 1)]))
      else (int p > rlen - 6, tr @ [Rd p, Rd p]))"

text \<open>\<open>!!*p\<close>: 1 when the byte is not zero, else 0.\<close>

definition nonzero :: "u8 \<Rightarrow> nat" where
  "nonzero b = (if b = 0 then 0 else 1)"

text \<open>
  The question loop \<open>while (qdcount--) { ... p += 5 + !!*p; }\<close>.
  The result is the cursor after the section, or \<open>None\<close> for \<open>return -1\<close>.
\<close>

fun questions :: "memory \<Rightarrow> int \<Rightarrow> nat \<Rightarrow> nat \<Rightarrow> trace \<Rightarrow> nat option \<times> trace" where
  "questions r rlen 0 p tr = (Some p, tr)"
| "questions r rlen (Suc qdcount) p tr =
     (case skip_labels r rlen p tr of (p1, t1) \<Rightarrow>
      case bad_name r rlen p1 t1 of (bad, t2) \<Rightarrow>
        if bad then (None, t2)
        else questions r rlen qdcount (p1 + 5 + nonzero (r p1)) (t2 @ [Rd p1]))"

text \<open>
  The answer loop. \<open>cb\<close> is the per-record callback (\<open>dns_print\<close> in the program), called
  with the record type \<open>p[1]\<close>, the offset of the resource data \<open>p+10\<close>, its length
  \<open>len = p[8]*256U + p[9]\<close> and the offset \<open>as\<close> of the record's start. It returns its
  result and the events of its own; a negative result aborts the parse.
\<close>

type_synonym callback = "nat \<Rightarrow> nat \<Rightarrow> nat \<Rightarrow> nat \<Rightarrow> int \<times> trace"

fun answers :: "callback \<Rightarrow> memory \<Rightarrow> int \<Rightarrow> nat \<Rightarrow> nat \<Rightarrow> trace \<Rightarrow> int \<times> trace" where
  "answers cb r rlen 0 p tr = (0, tr)"
| "answers cb r rlen (Suc ancount) as tr =
     (case skip_labels r rlen as tr of (p1, t1) \<Rightarrow>
      case bad_name r rlen p1 t1 of (bad, t2) \<Rightarrow>
        if bad then (-1, t2)
        else
          let p = p1 + 1 + nonzero (r p1);
              len = unat (r (p + 8)) * 256 + unat (r (p + 9));
              t3 = t2 @ [Rd p1, Rd (p + 8), Rd (p + 9)]
          in if int (p + len) > rlen then (-1, t3)
             else
               let rr = unat (r (p + 1));
                   t4 = t3 @ [Rd (p + 1), Cb rr (p + 10) len as] @ snd (cb rr (p + 10) len as)
               in if fst (cb rr (p + 10) len as) < 0 then (-1, t4)
                  else answers cb r rlen ancount (p + 10 + len) t4)"

definition dns_parse :: "callback \<Rightarrow> memory \<Rightarrow> int \<Rightarrow> int \<times> trace" where
  "dns_parse cb r rlen =
     (if rlen < 12 then (-1, [])
      else if r 3 AND 15 \<noteq> 0 then (-1, [Rd 3])
      else
        let qdcount = unat (r 4) * 256 + unat (r 5);
            ancount = unat (r 6) * 256 + unat (r 7);
            t0 = [Rd 3, Rd 4, Rd 5, Rd 6, Rd 7]
        in if qdcount + ancount > 64 then (-1, t0)
           else
             case questions r rlen qdcount 12 t0 of
               (None, t1) \<Rightarrow> (-1, t1)
             | (Some p, t1) \<Rightarrow> answers cb r rlen ancount p t1)"

text \<open>
  \<open>dns_print\<close>, the callback of the program. \<open>dn_expand\<close> belongs to the C library: it is
  a parameter, given the message, its length and the offset of the compressed name, and
  its result is negative when the expansion fails. The lines printed on standard output
  are presentation and are not recorded; the lines on the error stream are.
\<close>

definition dns_print :: "(memory \<Rightarrow> int \<Rightarrow> nat \<Rightarrow> int) \<Rightarrow> memory \<Rightarrow> int \<Rightarrow> callback" where
  "dns_print dn_expand p plen rr data len as =
     (if dn_expand p plen as < 0 then (-1, [Stderr ''dn_expand() error''])
      else if rr = RR_TYPE_A \<or> rr = RR_TYPE_AAAA then (0, [])
      else if rr = RR_TYPE_CNAME \<or> rr = RR_TYPE_PTR then
        (if dn_expand p plen data < 0 then (-1, [Stderr ''dn_expand() error''])
         else (0, []))
      else (0, []))"

section \<open>reverse_lookup\<close>

text \<open>
  A call either returns or stops the process (\<open>assert\<close>, \<open>abort\<close>).
\<close>

datatype 'a outcome = Aborted | Returned 'a

text \<open>
  The pointer \<open>reverse_lookup\<close> returns: \<open>addr\<close> itself, or \<open>buf\<close>, with the C string
  the function has written there.
\<close>

datatype lookup_name = Addr | Buf string

text \<open>
  What \<open>printf\<close> writes for \<open>%u\<close> and \<open>%x\<close>: the digits in base 10 and in base 16
  (lower case), without leading zeros.
\<close>

definition digit_char :: "nat \<Rightarrow> char" where
  "digit_char n = ''0123456789abcdef'' ! n"

fun fmt_u :: "nat \<Rightarrow> string" where
  "fmt_u n = (if n < 10 then [digit_char n] else fmt_u (n div 10) @ [digit_char (n mod 10)])"

fun fmt_x :: "nat \<Rightarrow> string" where
  "fmt_x n = (if n < 16 then [digit_char n] else fmt_x (n div 16) @ [digit_char (n mod 16)])"

declare fmt_u.simps [simp del] fmt_x.simps [simp del]

text \<open>
  The IPv4 loop. \<open>v4\<close> is the memory of the \<open>struct in_addr\<close> that \<open>inet_pton\<close> filled
  (four bytes, in network order), \<open>arr\<close> the index the pointer \<open>arr\<close> is at, \<open>p\<close> the text
  written to \<open>buf\<close> so far and \<open>len\<close> the capacity left. \<open>snprintf\<close> returns the length
  \<open>l\<close> of the whole formatted text; the loop gives up (\<open>None\<close>, for \<open>return addr\<close>) when
  \<open>l >= len\<close>, and otherwise the text is in the buffer, its terminator included.
\<close>

function v4_loop :: "u8 list \<Rightarrow> nat \<Rightarrow> int \<Rightarrow> string \<Rightarrow> nat \<Rightarrow> (string \<times> nat) option" where
  "v4_loop v4 i arr p len =
     (if i < 4 then
        (let s = fmt_u (unat (v4 ! nat arr)) @ ''.''; l = length s
         in if l \<ge> len then None
            else v4_loop v4 (i + 1) (arr - 1) (p @ s) (len - l))
      else Some (p, len))"
  by pat_completeness auto
termination
  by (relation "measure (\<lambda>(v4, i, arr, p, len). 4 - i)") auto

declare v4_loop.simps [simp del]

text \<open>
  The IPv6 loop, over the sixteen bytes of the \<open>struct in6_addr\<close>:
  \<open>snprintf(p, len, "%x.%x.", *arr & 15, (*arr >> 4) & 15)\<close>.
\<close>

function v6_loop :: "u8 list \<Rightarrow> nat \<Rightarrow> int \<Rightarrow> string \<Rightarrow> nat \<Rightarrow> (string \<times> nat) option" where
  "v6_loop v6 i arr p len =
     (if i < 16 then
        (let b = v6 ! nat arr;
             s = fmt_x (unat (b AND 15)) @ ''.'' @ fmt_x (unat (drop_bit 4 b AND 15)) @ ''.'';
             l = length s
         in if l \<ge> len then None
            else v6_loop v6 (i + 1) (arr - 1) (p @ s) (len - l))
      else Some (p, len))"
  by pat_completeness auto
termination
  by (relation "measure (\<lambda>(v6, i, arr, p, len). 16 - i)") auto

declare v6_loop.simps [simp del]

text \<open>
  \<open>inet_pton\<close> belongs to the C library: \<open>pton4\<close> and \<open>pton6\<close> give, for a string, the
  bytes it stores when it accepts the string (\<open>inet_pton(...) > 0\<close>), else \<open>None\<close>.
  \<open>assert\<close> stops the process unless the program was compiled with \<open>NDEBUG\<close>, which the
  parameter \<open>ndebug\<close> stands for.
\<close>

definition reverse_lookup ::
  "bool \<Rightarrow> (string \<Rightarrow> u8 list option) \<Rightarrow> (string \<Rightarrow> u8 list option) \<Rightarrow> string \<Rightarrow> nat
     \<Rightarrow> lookup_name outcome" where
  "reverse_lookup ndebug pton4 pton6 addr len =
     (if \<not> ndebug \<and> \<not> len \<ge> MAXREVLEN then Aborted
      else case pton4 addr of
        Some v4 \<Rightarrow>
          (case v4_loop v4 0 3 [] len of
             None \<Rightarrow> Returned Addr
           | Some (p, len') \<Rightarrow>
               if len' \<le> 12 then Returned Addr
               else Returned (Buf (p @ ''in-addr.arpa'')))
      | None \<Rightarrow>
          (case pton6 addr of
             Some v6 \<Rightarrow>
               (case v6_loop v6 0 15 [] len of
                  None \<Rightarrow> Returned Addr
                | Some (p, len') \<Rightarrow>
                    if len' \<le> 8 then Returned Addr
                    else Returned (Buf (p @ ''ip6.arpa'')))
           | None \<Rightarrow> Returned Addr))"

text \<open>
  The names the specification describes: the octets in reverse order, each followed by a
  dot, then \<open>in-addr.arpa\<close>; and for every byte, from the last to the first, its low
  nibble and its high nibble as one hexadecimal digit each, each followed by a dot, then
  \<open>ip6.arpa\<close>.
\<close>

definition in_addr_arpa :: "u8 list \<Rightarrow> string" where
  "in_addr_arpa v4 = concat (map (\<lambda>b. fmt_u (unat b) @ ''.'') (rev v4)) @ ''in-addr.arpa''"

definition ip6_arpa :: "u8 list \<Rightarrow> string" where
  "ip6_arpa v6 =
     concat (map (\<lambda>b. [digit_char (unat b mod 16), CHR ''.'', digit_char (unat b div 16), CHR ''.''])
                 (rev v6)) @ ''ip6.arpa''"

section \<open>res_ssend\<close>

record addrinfo =
  ai_family :: int
  ai_addrlen :: int

text \<open>
  What the operating system answers to the calls of one exchange: the results of
  \<open>socket\<close>, \<open>bind\<close>, \<open>sendto\<close> and \<open>poll\<close>, and for \<open>recvfrom\<close> either an error
  (\<open>None\<close>) or the datagram that arrived.
\<close>

record syscalls =
  socket_ret :: int
  bind_ret :: int
  sendto_ret :: int
  poll_ret :: int
  recvfrom_ret :: "u8 list option"

text \<open>The bytes \<open>msg[0..msglen)\<close>.\<close>

definition bytes_of :: "memory \<Rightarrow> int \<Rightarrow> u8 list" where
  "bytes_of msg msglen = map msg [0..<nat msglen]"

text \<open>
  The result is the value returned, the bytes \<open>recvfrom\<close> stored in \<open>answer\<close> (at most
  \<open>anslen\<close> of the datagram; the value returned is their number) and the events.
  Line by line: \<open>goto err\<close> returns without closing, \<open>goto err_close\<close> closes first.
\<close>

definition res_ssend :: "syscalls \<Rightarrow> addrinfo \<Rightarrow> memory \<Rightarrow> int \<Rightarrow> int \<Rightarrow> int \<times> u8 list \<times> trace" where
  "res_ssend sys srv msg msglen anslen =
     (let fd = socket_ret sys; t1 = [Socket (ai_family srv)] in
      if fd < 0 then (-1, [], t1 @ [Stderr ''cannot create the socket''])
      else
        let t2 = t1 @ [Bind fd] in
        if bind_ret sys < 0 then (-1, [], t2 @ [Stderr ''bind failure'', Close fd])
        else
          let t3 = t2 @ [Sendto fd (bytes_of msg msglen)] in
          if sendto_ret sys < 0 then (-1, [], t3 @ [Stderr ''sendto failure'', Close fd])
          else
            let t4 = t3 @ [Poll fd POLL_TIMEOUT] in
            if poll_ret sys \<le> 0 then (-1, [], t4 @ [Stderr ''poll timeout'', Close fd])
            else
              let t5 = t4 @ [Recvfrom fd (nat anslen)] in
              case recvfrom_ret sys of
                None \<Rightarrow> (-1, [], t5 @ [Stderr ''recvfrom error'', Close fd])
              | Some datagram \<Rightarrow>
                  let answer = take (nat anslen) datagram
                  in (int (length answer), answer, t5 @ [Close fd]))"

section \<open>main\<close>

definition EXIT_SUCCESS :: int where "EXIT_SUCCESS = 0"
definition EXIT_FAILURE :: int where "EXIT_FAILURE = 1"

definition ns_t_a :: nat where "ns_t_a = 1"
definition ns_t_ptr :: nat where "ns_t_ptr = 12"
definition ns_t_aaaa :: nat where "ns_t_aaaa = 28"

text \<open>
  Everything \<open>main\<close> gets from outside the program: whether it was compiled with
  \<open>NDEBUG\<close>; the C library's \<open>inet_pton\<close>, \<open>res_mkquery\<close> (the length it returns and
  the buffer it filled, for a name and a query type), \<open>getaddrinfo\<close>, \<open>res_send\<close> (for
  the query number and the message: the value returned and the bytes stored in the
  answer) and \<open>dn_expand\<close>; the operating system's answers during the exchange of query
  number \<open>i\<close>; and what the array \<open>response\<close> holds when iteration \<open>i\<close> begins.
\<close>

record env =
  ndebug :: bool
  inet_pton4 :: "string \<Rightarrow> u8 list option"
  inet_pton6 :: "string \<Rightarrow> u8 list option"
  res_mkquery :: "string \<Rightarrow> nat \<Rightarrow> int \<times> memory"
  getaddrinfo :: "string \<Rightarrow> addrinfo option"
  res_send :: "nat \<Rightarrow> u8 list \<Rightarrow> int \<times> u8 list"
  sys :: "nat \<Rightarrow> syscalls"
  stale :: "nat \<Rightarrow> memory"
  dn_expand :: "memory \<Rightarrow> int \<Rightarrow> nat \<Rightarrow> int"

text \<open>\<open>resolve_server\<close>: \<open>None\<close> is the null pointer.\<close>

definition resolve_server :: "env \<Rightarrow> string \<Rightarrow> addrinfo option \<times> trace" where
  "resolve_server e server =
     (case getaddrinfo e server of
        None \<Rightarrow> (None, [Resolve server, Stderr (''cannot resolve '' @ server)])
      | Some res \<Rightarrow> (Some res, [Resolve server]))"

text \<open>
  The queries built before the loop, each with the length \<open>res_mkquery\<close> returned:
  \<open>query[0]\<close> with \<open>qlen\<close> and, in a forward lookup, \<open>query[1]\<close> with \<open>qlen2\<close>. Their
  number is \<open>qcount\<close>. \<open>name\<close> is the string at the pointer \<open>reverse_lookup\<close> returned,
  compared with \<open>argv[1]\<close> as \<open>strcmp\<close> does.
\<close>

definition name_of :: "lookup_name \<Rightarrow> string \<Rightarrow> string" where
  "name_of res addr = (case res of Addr \<Rightarrow> addr | Buf s \<Rightarrow> s)"

definition build_queries :: "env \<Rightarrow> string \<Rightarrow> string \<Rightarrow> (int \<times> memory) list" where
  "build_queries e name host =
     (if name = host
      then [res_mkquery e name ns_t_a, res_mkquery e name ns_t_aaaa]
      else [res_mkquery e name ns_t_ptr])"

text \<open>
  Lines 291 to 311 of an iteration: the server is resolved in the first iteration only,
  and the query goes through \<open>res_send\<close> (two arguments) or \<open>res_ssend\<close> (three). The
  result is \<open>Inl\<close> the exit of \<open>main\<close>, or \<open>Inr\<close> the server, the value of \<open>rlen\<close> and
  the bytes stored in \<open>response\<close>. The variable \<open>srv\<close> is declared in the loop body and
  the second iteration reads it without assigning it: the model hands over the value of
  the first iteration, which is what the stack slot holds, and stops where the pointer
  was never assigned.
\<close>

definition exchange ::
  "env \<Rightarrow> string list \<Rightarrow> nat \<Rightarrow> memory \<Rightarrow> int \<Rightarrow> addrinfo option
     \<Rightarrow> (int outcome + (addrinfo \<times> int \<times> u8 list)) \<times> trace" where
  "exchange e argv i current_query qlen srv =
     (if length argv = 2 then
        (case (if i = 0 then resolve_server e ''127.0.0.1'' else (srv, [])) of
           (None, t1) \<Rightarrow> (Inl (if i = 0 then Returned EXIT_FAILURE else Aborted), t1)
         | (Some srv', t1) \<Rightarrow>
             (case res_send e i (bytes_of current_query qlen) of
                (rlen, answer) \<Rightarrow>
                  (Inr (srv', rlen, answer),
                   t1 @ [Exchange i, ResSend (bytes_of current_query qlen)])))
      else if length argv = 3 then
        (case (if i = 0 then resolve_server e (argv ! 2) else (srv, [])) of
           (None, t1) \<Rightarrow> (Inl (if i = 0 then Returned EXIT_FAILURE else Aborted), t1)
         | (Some srv', t1) \<Rightarrow>
             (case res_ssend (sys e i) srv' current_query qlen 1024 of
                (rlen, answer, t2) \<Rightarrow>
                  (Inr (srv', rlen, answer), t1 @ [Exchange i] @ t2)))
      else (Inl Aborted, []))"

text \<open>
  One iteration of the loop of \<open>main\<close>: \<open>Inl\<close> the exit of \<open>main\<close>, or \<open>Inr\<close> the server
  for the next iteration.
\<close>

definition iteration ::
  "env \<Rightarrow> string list \<Rightarrow> (int \<times> memory) list \<Rightarrow> nat \<Rightarrow> addrinfo option
     \<Rightarrow> (int outcome + addrinfo) \<times> trace" where
  "iteration e argv queries i srv =
     (case queries ! i of (qlen, current_query) \<Rightarrow>
      if qlen < 0 then (Inl (Returned EXIT_FAILURE), [Stderr ''cannot build the query''])
      else
        case exchange e argv i current_query qlen srv of
          (Inl ex, t1) \<Rightarrow> (Inl ex, t1)
        | (Inr (srv', rlen, answer), t1) \<Rightarrow>
            let t2 = t1 @ (if int i = int (length queries) - 1 then [FreeAddrInfo] else []) in
            if rlen < 0
            then (Inl (Returned EXIT_FAILURE), t2 @ [Stderr ''cannot send the query''])
            else
              let response = buf_mem answer (stale e i) in
              if current_query 0 \<noteq> response 0 \<or> current_query 1 \<noteq> response 1
              then (Inl (Returned EXIT_FAILURE), t2 @ [Stderr ''qsections don't match''])
              else
                case dns_parse (dns_print (dn_expand e) response rlen) response rlen of
                  (res, t3) \<Rightarrow>
                    if res < 0
                    then (Inl (Returned EXIT_FAILURE),
                          t2 @ [Parse i] @ t3 @ [Stderr ''decode failure''])
                    else (Inr srv', t2 @ [Parse i] @ t3))"

function main_loop ::
  "env \<Rightarrow> string list \<Rightarrow> (int \<times> memory) list \<Rightarrow> nat \<Rightarrow> addrinfo option \<Rightarrow> trace
     \<Rightarrow> int outcome \<times> trace" where
  "main_loop e argv queries i srv tr =
     (if i < length queries then
        (case iteration e argv queries i srv of
           (Inl ex, t) \<Rightarrow> (ex, tr @ t)
         | (Inr srv', t) \<Rightarrow> main_loop e argv queries (i + 1) (Some srv') (tr @ t))
      else (Returned EXIT_SUCCESS, tr))"
  by pat_completeness auto
termination
  by (relation "measure (\<lambda>(e, argv, queries, i, srv, tr). length queries - i)") auto

declare main_loop.simps [simp del]

text \<open>\<open>argv\<close> is the argument vector, the program's name first; \<open>argc\<close> is its length.\<close>

definition main :: "env \<Rightarrow> string list \<Rightarrow> int outcome \<times> trace" where
  "main e argv =
     (if length argv < 2 \<or> length argv > 3
      then (Returned EXIT_FAILURE,
            [Stderr (''Usage: '' @ (case argv of [] \<Rightarrow> [] | a # _ \<Rightarrow> a) @ '' [HOST] [SERVER]'')])
      else
        case reverse_lookup (ndebug e) (inet_pton4 e) (inet_pton6 e) (argv ! 1) MAXREVLEN of
          Aborted \<Rightarrow> (Aborted, [])
        | Returned res \<Rightarrow>
            main_loop e argv (build_queries e (name_of res (argv ! 1)) (argv ! 1)) 0 None [])"

section \<open>Notions used in the statements\<close>

text \<open>The descriptors closed, and the waits (descriptor and timeout), of a trace.\<close>

fun closes :: "trace \<Rightarrow> int list" where
  "closes [] = []"
| "closes (Close fd # tr) = fd # closes tr"
| "closes (e # tr) = closes tr"

fun polls :: "trace \<Rightarrow> (int \<times> int) list" where
  "polls [] = []"
| "polls (Poll fd ms # tr) = (fd, ms) # polls tr"
| "polls (e # tr) = polls tr"

text \<open>
  The events of \<open>dns_parse\<close> and its callback: reads, callback calls and lines on the
  error stream.
\<close>

fun parse_event :: "event \<Rightarrow> bool" where
  "parse_event (Rd i) = True"
| "parse_event (Cb rr d l a) = True"
| "parse_event (Stderr s) = True"
| "parse_event e = False"

text \<open>
  The reverse name of the address a string denotes, if it denotes one: IPv4 is tried
  first, as in the program.
\<close>

definition derived_name ::
  "(string \<Rightarrow> u8 list option) \<Rightarrow> (string \<Rightarrow> u8 list option) \<Rightarrow> string \<Rightarrow> string option" where
  "derived_name pton4 pton6 addr =
     (case pton4 addr of
        Some v4 \<Rightarrow> Some (in_addr_arpa v4)
      | None \<Rightarrow> (case pton6 addr of Some v6 \<Rightarrow> Some (ip6_arpa v6) | None \<Rightarrow> None))"

text \<open>
  The first query of a run fails: it could not be built, or the server was not resolved,
  or the exchange failed, or the identifiers differ, or the response does not decode.
\<close>

definition first_query_fails :: "env \<Rightarrow> string list \<Rightarrow> bool" where
  "first_query_fails e argv =
     (case res_mkquery e (argv ! 1) ns_t_a of (qlen, q0) \<Rightarrow>
        qlen < 0 \<or>
        (case exchange e argv 0 q0 qlen None of
           (Inl ex, t) \<Rightarrow> True
         | (Inr (srv', rlen, answer), t) \<Rightarrow>
             rlen < 0 \<or>
             q0 0 \<noteq> buf_mem answer (stale e 0) 0 \<or> q0 1 \<noteq> buf_mem answer (stale e 0) 1 \<or>
             fst (dns_parse (dns_print (dn_expand e) (buf_mem answer (stale e 0)) rlen)
                    (buf_mem answer (stale e 0)) rlen) < 0))"

section \<open>Concrete inputs\<close>

text \<open>
  A query for the name \<open>a\<close> with identifier \<open>0x1234\<close>, and a response to it: the question,
  and one address record for \<open>10.0.0.1\<close> whose name is a compression pointer.
\<close>

definition query_a :: "u8 list" where
  "query_a = [18, 52, 1, 0, 0, 1, 0, 0, 0, 0, 0, 0, 1, 97, 0, 0, 1, 0, 1]"

definition response_a :: "u8 list" where
  "response_a = [18, 52, 129, 128, 0, 1, 0, 1, 0, 0, 0, 0, 1, 97, 0, 0, 1, 0, 1,
     192, 12, 0, 1, 0, 1, 0, 0, 0, 60, 0, 4, 10, 0, 0, 1]"

text \<open>The same response under another identifier, \<open>0x1235\<close>.\<close>

definition response_other_id :: "u8 list" where
  "response_other_id = [18, 53, 129, 128, 0, 1, 0, 1, 0, 0, 0, 0, 1, 97, 0, 0, 1, 0, 1,
     192, 12, 0, 1, 0, 1, 0, 0, 0, 60, 0, 4, 10, 0, 0, 1]"

text \<open>A response cut after its header, which still announces one question.\<close>

definition header_only :: "u8 list" where
  "header_only = [18, 52, 129, 128, 0, 1, 0, 0, 0, 0, 0, 0]"

text \<open>
  A response with no question and one address record for the root name, cut after the
  record's data length (4): the four bytes of the address are missing.
\<close>

definition cut_record :: "u8 list" where
  "cut_record = [18, 52, 129, 128, 0, 0, 0, 1, 0, 0, 0, 0,
     0, 0, 1, 0, 1, 0, 0, 0, 60, 0, 4]"

text \<open>The same record cut after its class.\<close>

definition cut_fields :: "u8 list" where
  "cut_fields = [18, 52, 129, 128, 0, 0, 0, 1, 0, 0, 0, 0, 0, 0, 1, 0, 1, 0]"

text \<open>
  A run where the library builds \<open>query_a\<close>, the server resolves and every system call
  succeeds, the datagram received being \<open>reply\<close>.
\<close>

definition run_env :: "u8 list \<Rightarrow> env" where
  "run_env reply =
     \<lparr> ndebug = False, inet_pton4 = (\<lambda>s. None), inet_pton6 = (\<lambda>s. None),
       res_mkquery = (\<lambda>name t. (19, buf_mem query_a (\<lambda>i. 0))),
       getaddrinfo = (\<lambda>s. Some \<lparr> ai_family = 2, ai_addrlen = 16 \<rparr>),
       res_send = (\<lambda>i m. (int (length reply), reply)),
       sys = (\<lambda>i. \<lparr> socket_ret = 3, bind_ret = 0, sendto_ret = 19, poll_ret = 1,
                     recvfrom_ret = Some reply \<rparr>),
       stale = (\<lambda>i j. 0), dn_expand = (\<lambda>m l s. 1) \<rparr>"

text \<open>
  The same run when the array \<open>response\<close> holds the bytes \<open>old\<close> from before, which
  show behind a datagram shorter than they are.
\<close>

definition short_reply_env :: "u8 list \<Rightarrow> u8 list \<Rightarrow> env" where
  "short_reply_env reply old = (run_env reply)\<lparr>stale := (\<lambda>i. buf_mem old (\<lambda>j. 0))\<rparr>"

definition pton4_example :: "string \<Rightarrow> u8 list option" where
  "pton4_example s = (if s = ''192.0.2.1'' then Some [192, 0, 2, 1] else None)"

definition pton6_example :: "string \<Rightarrow> u8 list option" where
  "pton6_example s =
     (if s = ''2001:db8::1'' then Some [32, 1, 13, 184, 0, 0, 0, 0, 0, 0, 0, 0, 0, 0, 0, 1]
      else None)"

section \<open>The header checks of dns_parse\<close>

text \<open>
  Claim C3. \<open>dns_parse\<close> fails on every buffer whose declared length is below 12 and on
  every buffer whose byte at offset 3 has one of its low four bits set, and it does so
  before anything else happens: the only byte it may have read is the one at offset 3
  (and none at all when the length is below 12), so no entry was consumed and the
  callback was not called.
\<close>

theorem dns_parse_header_reject:
  "rlen < 12 \<or> r 3 AND 15 \<noteq> 0 \<Longrightarrow>
     fst (dns_parse cb r rlen) = -1 \<and> set (snd (dns_parse cb r rlen)) \<subseteq> {Rd 3}
     \<and> (rlen < 12 \<longrightarrow> snd (dns_parse cb r rlen) = [])"
  by (auto simp: dns_parse_def)

theorem dns_parse_header_reject_witness:
  "dns_parse (\<lambda>rr d l a. (0, []))
     (buf_mem [18, 52, 129, 131, 0, 1, 0, 0, 0, 0, 0, 0, 1, 97, 0, 0, 1, 0, 1] (\<lambda>i. 0)) 19
     = (-1, [Rd 3])
   \<and> dns_parse (\<lambda>rr d l a. (0, [])) (buf_mem [18, 52, 129, 128, 0] (\<lambda>i. 0)) 5 = (-1, [])"
proof
  let ?m = "buf_mem [18, 52, 129, 131, 0, 1, 0, 0, 0, 0, 0, 0, 1, 97, 0, 0, 1, 0, 1] (\<lambda>i. 0)"
  have "19 < (12::int) \<or> ?m 3 AND 15 \<noteq> 0" by (simp add: buf_mem_def)
  from dns_parse_header_reject [of 19 ?m "\<lambda>rr d l a. (0, [])", OF this]
  have "fst (dns_parse (\<lambda>rr d l a. (0, [])) ?m 19) = -1"
    and "set (snd (dns_parse (\<lambda>rr d l a. (0, [])) ?m 19)) \<subseteq> {Rd 3}" by simp_all
  moreover have "snd (dns_parse (\<lambda>rr d l a. (0, [])) ?m 19) \<noteq> []"
    by (simp add: dns_parse_def buf_mem_def)
  ultimately show "dns_parse (\<lambda>rr d l a. (0, [])) ?m 19 = (-1, [Rd 3])"
    by (simp add: dns_parse_def buf_mem_def)
next
  let ?m = "buf_mem [18, 52, 129, 128, 0] (\<lambda>i. 0)"
  have "5 < (12::int) \<or> ?m 3 AND 15 \<noteq> 0" by simp
  from dns_parse_header_reject [of 5 ?m "\<lambda>rr d l a. (0, [])", OF this]
  show "dns_parse (\<lambda>rr d l a. (0, [])) ?m 5 = (-1, [])"
    by (simp add: prod_eq_iff)
qed

text \<open>
  Claim C7. Once the header checks have passed, a message whose question count plus
  answer count (each read big-endian from bytes 4-5 and 6-7) exceeds 64 is rejected with
  nothing but the header read; with a sum of at most 64 the parse goes on to walk the
  question section from offset 12 and then the answer section.
\<close>

theorem dns_parse_count_bound:
  assumes "12 \<le> rlen" and "r 3 AND 15 = 0"
    and "qdcount = unat (r 4) * 256 + unat (r 5)"
    and "ancount = unat (r 6) * 256 + unat (r 7)"
  shows "(64 < qdcount + ancount \<longrightarrow>
            dns_parse cb r rlen = (-1, [Rd 3, Rd 4, Rd 5, Rd 6, Rd 7]))
       \<and> (qdcount + ancount \<le> 64 \<longrightarrow>
            dns_parse cb r rlen =
              (case questions r rlen qdcount 12 [Rd 3, Rd 4, Rd 5, Rd 6, Rd 7] of
                 (None, t1) \<Rightarrow> (-1, t1)
               | (Some p, t1) \<Rightarrow> answers cb r rlen ancount p t1))"
  unfolding assms(3,4) using assms(1,2) by (simp add: dns_parse_def Let_def)

theorem dns_parse_count_bound_witness:
  "dns_parse (\<lambda>rr d l a. (0, [])) (buf_mem [18, 52, 129, 128, 0, 60, 0, 5, 0, 0, 0, 0] (\<lambda>i. 0)) 12
     = (-1, [Rd 3, Rd 4, Rd 5, Rd 6, Rd 7])
   \<and> dns_parse (\<lambda>rr d l a. (0, [])) (buf_mem response_a (\<lambda>i. 0)) 35
     = (0, [Rd 3, Rd 4, Rd 5, Rd 6, Rd 7, Rd 12, Rd 13, Rd 14, Rd 14, Rd 14, Rd 14,
            Rd 19, Rd 19, Rd 19, Rd 19, Rd 29, Rd 30, Rd 22, Cb 1 31 4 19])"
proof
  let ?m = "buf_mem [18, 52, 129, 128, 0, 60, 0, 5, 0, 0, 0, 0] (\<lambda>i. 0)"
  have "64 < (60::nat) + 5 \<longrightarrow>
      dns_parse (\<lambda>rr d l a. (0, [])) ?m 12 = (-1, [Rd 3, Rd 4, Rd 5, Rd 6, Rd 7])"
    by (rule dns_parse_count_bound [THEN conjunct1]) (simp_all add: buf_mem_def)
  then show "dns_parse (\<lambda>rr d l a. (0, [])) ?m 12 = (-1, [Rd 3, Rd 4, Rd 5, Rd 6, Rd 7])"
    by simp
next
  let ?m = "buf_mem response_a (\<lambda>i. 0)"
  have "(1::nat) + 1 \<le> 64 \<longrightarrow>
      dns_parse (\<lambda>rr d l a. (0, [])) ?m 35 =
        (case questions ?m 35 1 12 [Rd 3, Rd 4, Rd 5, Rd 6, Rd 7] of
           (None, t1) \<Rightarrow> (-1, t1)
         | (Some p, t1) \<Rightarrow> answers (\<lambda>rr d l a. (0, [])) ?m 35 1 p t1)"
    by (rule dns_parse_count_bound [THEN conjunct2]) (simp_all add: buf_mem_def response_a_def)
  then show "dns_parse (\<lambda>rr d l a. (0, [])) ?m 35
     = (0, [Rd 3, Rd 4, Rd 5, Rd 6, Rd 7, Rd 12, Rd 13, Rd 14, Rd 14, Rd 14, Rd 14,
            Rd 19, Rd 19, Rd 19, Rd 19, Rd 29, Rd 30, Rd 22, Cb 1 31 4 19])"
    by (simp add: buf_mem_def response_a_def skip_labels.simps bad_name_def nonzero_def Let_def)
qed

section \<open>The bounds of dns_parse\<close>

text \<open>
  Claim C1. The claim is that no byte at an offset at or beyond the declared length is
  read. The code reads such bytes. On a 12-byte response that announces one question the
  label loop stops at offset 12 because \<open>p-r < rlen\<close> fails, and the test that follows
  reads \<open>*p\<close> there before it compares \<open>p\<close> with the end. On an 18-byte response with one
  answer record the name passes the test \<open>p > r+rlen-6\<close> and the length bytes \<open>p[8]\<close>
  and \<open>p[9]\<close> are read at offsets 21 and 22. Both hold whatever lies behind the
  message and whatever the callback does.
\<close>

theorem dns_parse_reads_beyond_length:
  "Rd 12 \<in> set (snd (dns_parse cb (buf_mem header_only behind) 12))
   \<and> Rd 21 \<in> set (snd (dns_parse cb (buf_mem cut_fields behind) 18))
   \<and> Rd 22 \<in> set (snd (dns_parse cb (buf_mem cut_fields behind) 18))"
  by (simp add: dns_parse_def buf_mem_def skip_labels.simps bad_name_def nonzero_def Let_def
      header_only_def cut_fields_def)

text \<open>
  Claim C2. The claim is that the resource data handed to the callback ends inside the
  message. The code compares \<open>p+len\<close> with the end, where \<open>p\<close> is the start of the
  record's fixed fields, ten bytes before the data. On the 23-byte response \<open>cut_record\<close>
  the callback is called for data at offset 23 of length 4: the data begins where the
  message ends.
\<close>

theorem dns_parse_data_beyond_length:
  "Cb 1 23 4 12 \<in> set (snd (dns_parse cb (buf_mem cut_record behind) 23))
   \<and> (23::nat) + 4 > 23"
  by (simp add: dns_parse_def buf_mem_def skip_labels.simps bad_name_def nonzero_def Let_def
      cut_record_def)

section \<open>The reverse name\<close>

lemma fmt_x_nibble: "n < 16 \<Longrightarrow> fmt_x n = [digit_char n]"
  by (simp add: fmt_x.simps)

lemma low_nibble_unat: "unat ((b::u8) AND 15) = unat b mod 16"
proof -
  have "(15::u8) = mask 4" by (simp add: mask_eq_exp_minus_1)
  then have "b AND 15 = take_bit 4 b" by (simp add: take_bit_eq_mask)
  then show ?thesis by (simp add: unsigned_take_bit_eq take_bit_eq_mod unat_mod)
qed

lemma high_nibble_unat: "unat (drop_bit 4 (b::u8) AND 15) = unat b div 16"
proof -
  have "unat b < 256" using unsigned_less [of b] by simp
  then have "unat b div 16 < 16" by simp
  moreover have "unat (drop_bit 4 b) = unat b div 16"
    by (simp add: unat_drop_bit_eq drop_bit_eq_div unat_div)
  ultimately show ?thesis by (simp add: low_nibble_unat)
qed

lemma length_fmt_u: "n < 1000 \<Longrightarrow> 1 \<le> length (fmt_u n) \<and> length (fmt_u n) \<le> 3"
proof -
  assume n: "n < 1000"
  show ?thesis
  proof (cases "n < 10")
    case True then show ?thesis by (simp add: fmt_u.simps)
  next
    case False
    note ge10 = this
    show ?thesis
    proof (cases "n < 100")
      case True
      with ge10 have "n div 10 < 10" by simp
      with ge10 show ?thesis by (simp add: fmt_u.simps [of n] fmt_u.simps [of "n div 10"])
    next
      case False
      with n have a: "\<not> n div 10 < 10" "n div 10 div 10 < 10" by simp_all
      with ge10 show ?thesis
        by (simp add: fmt_u.simps [of n] fmt_u.simps [of "n div 10"] fmt_u.simps [of "n div 10 div 10"])
    qed
  qed
qed

lemma length_fmt_u_byte: "1 \<le> length (fmt_u (unat (b::u8))) \<and> length (fmt_u (unat b)) \<le> 3"
proof -
  have "unat b < 256" using unsigned_less [of b] by simp
  then show ?thesis by (intro length_fmt_u) simp
qed

lemma v4_loop_eq:
  assumes len4: "length v4 = 4"
  shows "i \<le> 4 \<Longrightarrow>
    v4_loop v4 i (3 - int i) p len =
      (let rest = concat (map (\<lambda>b. fmt_u (unat b) @ ''.'') (rev (take (4 - i) v4)))
       in if length rest < len \<or> i = 4 then Some (p @ rest, len - length rest) else None)"
proof (induction "4 - i" arbitrary: i p len)
  case 0
  then have "i = 4" by simp
  then show ?case by (simp add: v4_loop.simps)
next
  case (Suc n)
  then have i: "i < 4" and n: "n = 4 - (i + 1)" by simp_all
  let ?f = "\<lambda>b. fmt_u (unat b) @ ''.''"
  let ?s = "?f (v4 ! (3 - i))"
  let ?rest' = "concat (map ?f (rev (take (4 - (i + 1)) v4)))"
  have tk: "take (4 - i) v4 = take (4 - (i + 1)) v4 @ [v4 ! (3 - i)]"
  proof -
    have "4 - i = Suc (3 - i)" using i by simp
    moreover have "3 - i < length v4" using len4 i by simp
    ultimately show ?thesis using take_Suc_conv_app_nth [of "3 - i" v4] by simp
  qed
  have rest: "concat (map ?f (rev (take (4 - i) v4))) = ?s @ ?rest'"
    by (simp add: tk)
  have idx: "nat (3 - int i) = 3 - i" using i by simp
  have arr: "3 - int i - 1 = 3 - int (i + 1)" by simp
  have IH: "v4_loop v4 (i + 1) (3 - int (i + 1)) (p @ ?s) (len - length ?s) =
      (let rest = ?rest'
       in if length rest < len - length ?s \<or> i + 1 = 4
          then Some ((p @ ?s) @ rest, len - length ?s - length rest) else None)"
  proof -
    have le: "i + 1 \<le> 4" using i by simp
    show ?thesis by (rule Suc.hyps(1) [OF n le])
  qed
  have last: "i + 1 = 4 \<Longrightarrow> ?rest' = []" by simp
  show ?case
  proof (cases "length ?s \<ge> len")
    case True
    then show ?thesis using i
      by (subst v4_loop.simps) (simp add: idx rest Let_def)
  next
    case False
    have "v4_loop v4 i (3 - int i) p len =
        v4_loop v4 (i + 1) (3 - int (i + 1)) (p @ ?s) (len - length ?s)"
      using False i by (subst v4_loop.simps) (simp add: idx arr Let_def)
    also have "\<dots> = (if length (?s @ ?rest') < len
        then Some (p @ ?s @ ?rest', len - length (?s @ ?rest')) else None)"
      using False last unfolding IH Let_def by (cases "i + 1 = 4") auto
    finally show ?thesis using i by (simp add: rest Let_def)
  qed
qed

lemma nibble_text:
  "fmt_x (unat ((b::u8) AND 15)) @ ''.'' @ fmt_x (unat (drop_bit 4 b AND 15)) @ ''.''
     = [digit_char (unat b mod 16), CHR ''.'', digit_char (unat b div 16), CHR ''.'']"
proof -
  have "unat b < 256" using unsigned_less [of b] by simp
  then have "unat b div 16 < 16" by simp
  then have hi: "fmt_x (unat (drop_bit 4 b AND 15)) = [digit_char (unat b div 16)]"
    by (simp only: high_nibble_unat fmt_x_nibble)
  have lo: "fmt_x (unat (b AND 15)) = [digit_char (unat b mod 16)]"
    by (simp add: low_nibble_unat fmt_x_nibble)
  show ?thesis unfolding hi lo by simp
qed

lemma v6_loop_eq:
  assumes len16: "length v6 = 16"
  shows "i \<le> 16 \<Longrightarrow>
    v6_loop v6 i (15 - int i) p len =
      (let rest = concat (map (\<lambda>b. [digit_char (unat b mod 16), CHR ''.'',
                                      digit_char (unat b div 16), CHR ''.''])
                              (rev (take (16 - i) v6)))
       in if length rest < len \<or> i = 16 then Some (p @ rest, len - length rest) else None)"
proof (induction "16 - i" arbitrary: i p len)
  case 0
  then have "i = 16" by simp
  then show ?case by (simp add: v6_loop.simps)
next
  case (Suc n)
  then have i: "i < 16" and n: "n = 16 - (i + 1)" by simp_all
  let ?f = "\<lambda>b::u8. [digit_char (unat b mod 16), CHR ''.'', digit_char (unat b div 16), CHR ''.'']"
  let ?s = "?f (v6 ! (15 - i))"
  let ?rest' = "concat (map ?f (rev (take (16 - (i + 1)) v6)))"
  have tk: "take (16 - i) v6 = take (16 - (i + 1)) v6 @ [v6 ! (15 - i)]"
  proof -
    have "16 - i = Suc (15 - i)" using i by simp
    moreover have "15 - i < length v6" using len16 i by simp
    ultimately show ?thesis using take_Suc_conv_app_nth [of "15 - i" v6] by simp
  qed
  have rest: "concat (map ?f (rev (take (16 - i) v6))) = ?s @ ?rest'"
    by (simp add: tk)
  have idx: "nat (15 - int i) = 15 - i" using i by simp
  have arr: "15 - int i - 1 = 15 - int (i + 1)" by simp
  have IH: "v6_loop v6 (i + 1) (15 - int (i + 1)) (p @ ?s) (len - length ?s) =
      (let rest = ?rest'
       in if length rest < len - length ?s \<or> i + 1 = 16
          then Some ((p @ ?s) @ rest, len - length ?s - length rest) else None)"
  proof -
    have le: "i + 1 \<le> 16" using i by simp
    show ?thesis by (rule Suc.hyps(1) [OF n le])
  qed
  have last: "i + 1 = 16 \<Longrightarrow> ?rest' = []" by simp
  have step: "v6_loop v6 i (15 - int i) p len =
      (if length ?s \<ge> len then None
       else v6_loop v6 (i + 1) (15 - int (i + 1)) (p @ ?s) (len - length ?s))"
    apply (subst v6_loop.simps)
    unfolding Let_def nibble_text idx arr
    using i by simp
  show ?case
  proof (cases "length ?s \<ge> len")
    case True
    then show ?thesis using i unfolding step rest by (simp add: Let_def)
  next
    case False
    have "v6_loop v6 i (15 - int i) p len =
        v6_loop v6 (i + 1) (15 - int (i + 1)) (p @ ?s) (len - length ?s)"
      using False unfolding step by simp
    also have "\<dots> = (if length (?s @ ?rest') < len
        then Some (p @ ?s @ ?rest', len - length (?s @ ?rest')) else None)"
      using False last unfolding IH Let_def by (cases "i + 1 = 16") auto
    finally show ?thesis using i by (simp add: rest Let_def)
  qed
qed

lemma reverse_lookup_v4:
  assumes "nd \<or> MAXREVLEN \<le> len" and "pton4 addr = Some v4" and "length v4 = 4"
  shows "reverse_lookup nd pton4 pton6 addr len =
    Returned (if length (in_addr_arpa v4) < len then Buf (in_addr_arpa v4) else Addr)"
proof -
  have "v4_loop v4 0 3 [] len =
      (let rest = concat (map (\<lambda>b. fmt_u (unat b) @ ''.'') (rev v4))
       in if length rest < len then Some (rest, len - length rest) else None)"
    using v4_loop_eq [OF assms(3), of 0 "[]" len] assms(3) by (simp add: Let_def)
  then show ?thesis using assms(1,2)
    by (auto simp: reverse_lookup_def in_addr_arpa_def Let_def)
qed

lemma reverse_lookup_v6:
  assumes "nd \<or> MAXREVLEN \<le> len" and "pton4 addr = None" and "pton6 addr = Some v6"
    and "length v6 = 16"
  shows "reverse_lookup nd pton4 pton6 addr len =
    Returned (if length (ip6_arpa v6) < len then Buf (ip6_arpa v6) else Addr)"
proof -
  have "v6_loop v6 0 15 [] len =
      (let rest = concat (map (\<lambda>b. [digit_char (unat b mod 16), CHR ''.'',
                                      digit_char (unat b div 16), CHR ''.'']) (rev v6))
       in if length rest < len then Some (rest, len - length rest) else None)"
    using v6_loop_eq [OF assms(4), of 0 "[]" len] assms(4) by (simp add: Let_def)
  then show ?thesis using assms(1,2,3)
    by (auto simp: reverse_lookup_def ip6_arpa_def Let_def)
qed

lemma reverse_lookup_neither:
  assumes "nd \<or> MAXREVLEN \<le> len" and "pton4 addr = None" and "pton6 addr = None"
  shows "reverse_lookup nd pton4 pton6 addr len = Returned Addr"
  using assms by (auto simp: reverse_lookup_def)

lemma length_in_addr_arpa:
  "length (in_addr_arpa v4) \<le> 4 * length v4 + 12"
proof -
  have "length (concat (map (\<lambda>b. fmt_u (unat b) @ ''.'') xs)) \<le> 4 * length xs" for xs :: "u8 list"
  proof (induction xs)
    case Nil show ?case by simp
  next
    case (Cons b xs)
    then show ?case using length_fmt_u_byte [of b] by simp
  qed
  from this [of "rev v4"] show ?thesis by (simp add: in_addr_arpa_def)
qed

lemma length_ip6_arpa:
  "length (ip6_arpa v6) = 4 * length v6 + 8"
proof -
  have "length (concat (map (\<lambda>b. [digit_char (unat b mod 16), CHR ''.'',
            digit_char (unat b div 16), CHR ''.'']) xs)) = 4 * length xs" for xs :: "u8 list"
    by (induction xs) simp_all
  from this [of "rev v6"] show ?thesis by (simp add: ip6_arpa_def)
qed

text \<open>
  Claim C5. When the assertion does not stop the call and the name fits the buffer with
  its terminator, \<open>reverse_lookup\<close> returns, in the caller's buffer, for an IPv4
  literal the four octets in reverse order, each followed by a dot, and \<open>in-addr.arpa\<close>,
  and for an IPv6 literal the 32 nibbles (bytes in reverse order, the low nibble before
  the high one), each followed by a dot, and \<open>ip6.arpa\<close>. The two examples of the
  specification are evaluated below.
\<close>

theorem reverse_lookup_name:
  assumes "nd \<or> MAXREVLEN \<le> len"
  shows "(pton4 addr = Some v4 \<and> length v4 = 4 \<and> length (in_addr_arpa v4) < len \<longrightarrow>
            reverse_lookup nd pton4 pton6 addr len = Returned (Buf (in_addr_arpa v4)))
       \<and> (pton4 addr = None \<and> pton6 addr = Some v6 \<and> length v6 = 16
            \<and> length (ip6_arpa v6) < len \<longrightarrow>
            reverse_lookup nd pton4 pton6 addr len = Returned (Buf (ip6_arpa v6)))"
  using assms by (simp add: reverse_lookup_v4 reverse_lookup_v6)

lemma in_addr_arpa_example: "in_addr_arpa [192, 0, 2, 1] = ''1.2.0.192.in-addr.arpa''"
  by (simp add: in_addr_arpa_def fmt_u.simps digit_char_def)

lemma ip6_arpa_example:
  "ip6_arpa [32, 1, 13, 184, 0, 0, 0, 0, 0, 0, 0, 0, 0, 0, 0, 1] =
     ''1.0.0.0.0.0.0.0.0.0.0.0.0.0.0.0.0.0.0.0.0.0.0.0.8.b.d.0.1.0.0.2.ip6.arpa''"
  by (simp add: ip6_arpa_def digit_char_def)

theorem reverse_lookup_name_witness:
  "reverse_lookup False pton4_example pton6_example ''192.0.2.1'' 73
     = Returned (Buf ''1.2.0.192.in-addr.arpa'')
   \<and> reverse_lookup False pton4_example pton6_example ''2001:db8::1'' 73
     = Returned (Buf ''1.0.0.0.0.0.0.0.0.0.0.0.0.0.0.0.0.0.0.0.0.0.0.0.8.b.d.0.1.0.0.2.ip6.arpa'')"
  using reverse_lookup_name [of False 73 pton4_example "''192.0.2.1''" "[192, 0, 2, 1]"
      pton6_example "[]"]
    reverse_lookup_name [of False 73 pton4_example "''2001:db8::1''" "[]"
      pton6_example "[32, 1, 13, 184, 0, 0, 0, 0, 0, 0, 0, 0, 0, 0, 0, 1]"]
  by (simp add: in_addr_arpa_example ip6_arpa_example pton4_example_def pton6_example_def
      MAXREVLEN_def)

text \<open>
  Claim C6, amended. With the assertion active and a capacity below \<open>MAXREVLEN\<close> the call
  stops the process and returns nothing. In every other call \<open>reverse_lookup\<close> returns the
  pointer \<open>addr\<close> exactly when the input denotes no address of either family or the
  derived name does not fit the capacity with its terminator (which the tests before
  each write detect), and otherwise the buffer with the derived name. The results
  \<open>inet_pton\<close> stores are taken to have the size of their structures.
\<close>

theorem reverse_lookup_fallback:
  assumes "\<forall>v4. pton4 addr = Some v4 \<longrightarrow> length v4 = 4"
    and "\<forall>v6. pton6 addr = Some v6 \<longrightarrow> length v6 = 16"
  shows "(\<not> nd \<and> len < MAXREVLEN \<longrightarrow> reverse_lookup nd pton4 pton6 addr len = Aborted)
       \<and> (nd \<or> MAXREVLEN \<le> len \<longrightarrow>
           (reverse_lookup nd pton4 pton6 addr len = Returned Addr \<longleftrightarrow>
              derived_name pton4 pton6 addr = None \<or>
              (\<exists>name. derived_name pton4 pton6 addr = Some name \<and> len \<le> length name))
           \<and> (\<forall>name. derived_name pton4 pton6 addr = Some name \<and> length name < len \<longrightarrow>
                reverse_lookup nd pton4 pton6 addr len = Returned (Buf name)))"
proof (intro conjI impI)
  assume "\<not> nd \<and> len < MAXREVLEN"
  then show "reverse_lookup nd pton4 pton6 addr len = Aborted"
    by (simp add: reverse_lookup_def)
next
  assume a: "nd \<or> MAXREVLEN \<le> len"
  have r: "reverse_lookup nd pton4 pton6 addr len =
      Returned (case derived_name pton4 pton6 addr of
                  None \<Rightarrow> Addr
                | Some name \<Rightarrow> if length name < len then Buf name else Addr)"
  proof (cases "pton4 addr")
    case (Some v4)
    with assms(1) have "length v4 = 4" by simp
    from reverse_lookup_v4 [of nd len pton4 addr v4 pton6, OF a Some this] Some
    show ?thesis by (simp add: derived_name_def)
  next
    case None
    note n4 = this
    show ?thesis
    proof (cases "pton6 addr")
      case None
      from reverse_lookup_neither [of nd len pton4 addr pton6, OF a n4 None] n4 None
      show ?thesis by (simp add: derived_name_def)
    next
      case (Some v6)
      with assms(2) have "length v6 = 16" by simp
      from reverse_lookup_v6 [of nd len pton4 addr pton6 v6, OF a n4 Some this] n4 Some
      show ?thesis by (simp add: derived_name_def)
    qed
  qed
  show "reverse_lookup nd pton4 pton6 addr len = Returned Addr \<longleftrightarrow>
      derived_name pton4 pton6 addr = None \<or>
      (\<exists>name. derived_name pton4 pton6 addr = Some name \<and> len \<le> length name)"
    unfolding r by (auto split: option.splits)
  show "\<forall>name. derived_name pton4 pton6 addr = Some name \<and> length name < len \<longrightarrow>
      reverse_lookup nd pton4 pton6 addr len = Returned (Buf name)"
    unfolding r by simp
qed

theorem reverse_lookup_fallback_witness:
  "reverse_lookup False pton4_example pton6_example ''example.com'' 73 = Returned Addr
   \<and> reverse_lookup True pton4_example pton6_example ''192.0.2.1'' 22 = Returned Addr
   \<and> reverse_lookup True pton4_example pton6_example ''192.0.2.1'' 23
       = Returned (Buf ''1.2.0.192.in-addr.arpa'')
   \<and> reverse_lookup False pton4_example pton6_example ''192.0.2.1'' 73
       = Returned (Buf ''1.2.0.192.in-addr.arpa'')
   \<and> reverse_lookup False pton4_example pton6_example ''192.0.2.1'' 72 = Aborted"
proof -
  have wf4: "\<forall>v4. pton4_example a = Some v4 \<longrightarrow> length v4 = 4" for a
    by (simp add: pton4_example_def)
  have wf6: "\<forall>v6. pton6_example a = Some v6 \<longrightarrow> length v6 = 16" for a
    by (simp add: pton6_example_def)
  have d1: "derived_name pton4_example pton6_example ''example.com'' = None"
    by (simp add: derived_name_def pton4_example_def pton6_example_def)
  have d2: "derived_name pton4_example pton6_example ''192.0.2.1'' = Some ''1.2.0.192.in-addr.arpa''"
    by (simp add: derived_name_def pton4_example_def in_addr_arpa_example)
  have 1: "reverse_lookup False pton4_example pton6_example ''example.com'' 73 = Returned Addr"
    using reverse_lookup_fallback [of pton4_example "''example.com''" pton6_example False 73,
        OF wf4 wf6] d1
    by (simp add: MAXREVLEN_def)
  have 2: "reverse_lookup True pton4_example pton6_example ''192.0.2.1'' 22 = Returned Addr"
    using reverse_lookup_fallback [of pton4_example "''192.0.2.1''" pton6_example True 22,
        OF wf4 wf6] d2
    by simp
  have 3: "reverse_lookup True pton4_example pton6_example ''192.0.2.1'' 23
       = Returned (Buf ''1.2.0.192.in-addr.arpa'')"
    using reverse_lookup_fallback [of pton4_example "''192.0.2.1''" pton6_example True 23,
        OF wf4 wf6] d2
    by simp
  have 4: "reverse_lookup False pton4_example pton6_example ''192.0.2.1'' 73
       = Returned (Buf ''1.2.0.192.in-addr.arpa'')"
    using reverse_lookup_fallback [of pton4_example "''192.0.2.1''" pton6_example False 73,
        OF wf4 wf6] d2
    by (simp add: MAXREVLEN_def)
  have 5: "reverse_lookup False pton4_example pton6_example ''192.0.2.1'' 72 = Aborted"
    using reverse_lookup_fallback [of pton4_example "''192.0.2.1''" pton6_example False 72,
        OF wf4 wf6]
    by (simp add: MAXREVLEN_def)
  from 1 2 3 4 5 show ?thesis by simp
qed

text \<open>
  The claim as it is written, for every capacity, fails where the assertion stops the
  call: with a capacity of 30 the name of \<open>192.0.2.1\<close> (22 characters) would fit and is
  not returned, and with a capacity of 10 a string that denotes no address is not
  returned either.
\<close>

theorem reverse_lookup_fallback_counterexample:
  "derived_name pton4_example pton6_example ''192.0.2.1'' = Some ''1.2.0.192.in-addr.arpa''
   \<and> length ''1.2.0.192.in-addr.arpa'' < (30::nat)
   \<and> reverse_lookup False pton4_example pton6_example ''192.0.2.1'' 30 = Aborted
   \<and> reverse_lookup False pton4_example pton6_example ''192.0.2.1'' 30
       \<noteq> Returned (Buf ''1.2.0.192.in-addr.arpa'')
   \<and> derived_name pton4_example pton6_example ''example.com'' = None
   \<and> reverse_lookup False pton4_example pton6_example ''example.com'' 10 = Aborted
   \<and> reverse_lookup False pton4_example pton6_example ''example.com'' 10 \<noteq> Returned Addr"
  by (simp add: derived_name_def pton4_example_def pton6_example_def in_addr_arpa_example
      reverse_lookup_def MAXREVLEN_def)

text \<open>
  Claim C9. With a capacity of at least \<open>MAXREVLEN\<close> = 73 and an input that denotes an
  IPv4 or IPv6 address, the fallback is never taken: the derived name is returned, it
  takes at most 73 bytes with its terminator, and an IPv6 name takes exactly 73.
\<close>

theorem maxrevlen_suffices:
  assumes "MAXREVLEN \<le> len"
    and "(pton4 addr = Some v4 \<and> length v4 = 4)
       \<or> (pton4 addr = None \<and> pton6 addr = Some v6 \<and> length v6 = 16)"
  shows "\<exists>name. derived_name pton4 pton6 addr = Some name
           \<and> reverse_lookup nd pton4 pton6 addr len = Returned (Buf name)
           \<and> length name + 1 \<le> MAXREVLEN
           \<and> (pton4 addr = None \<longrightarrow> length name + 1 = MAXREVLEN)"
  using assms(2)
proof
  assume h: "pton4 addr = Some v4 \<and> length v4 = 4"
  then have "length (in_addr_arpa v4) \<le> 28" using length_in_addr_arpa [of v4] by simp
  moreover from assms(1) have a: "nd \<or> MAXREVLEN \<le> len" by simp
  ultimately show ?thesis using reverse_lookup_v4 [of nd len pton4 addr v4 pton6, OF a] h assms(1)
    by (simp add: MAXREVLEN_def derived_name_def)
next
  assume h: "pton4 addr = None \<and> pton6 addr = Some v6 \<and> length v6 = 16"
  then have "length (ip6_arpa v6) = 72" using length_ip6_arpa [of v6] by simp
  moreover from assms(1) have a: "nd \<or> MAXREVLEN \<le> len" by simp
  ultimately show ?thesis using reverse_lookup_v6 [of nd len pton4 addr pton6 v6, OF a] h assms(1)
    by (simp add: MAXREVLEN_def derived_name_def)
qed

theorem maxrevlen_suffices_witness:
  "reverse_lookup False pton4_example pton6_example ''192.0.2.1'' 73
     = Returned (Buf ''1.2.0.192.in-addr.arpa'')
   \<and> length ''1.2.0.192.in-addr.arpa'' + 1 \<le> MAXREVLEN
   \<and> reverse_lookup False pton4_example pton6_example ''2001:db8::1'' 73
     = Returned (Buf ''1.0.0.0.0.0.0.0.0.0.0.0.0.0.0.0.0.0.0.0.0.0.0.0.8.b.d.0.1.0.0.2.ip6.arpa'')
   \<and> length ''1.0.0.0.0.0.0.0.0.0.0.0.0.0.0.0.0.0.0.0.0.0.0.0.8.b.d.0.1.0.0.2.ip6.arpa'' + 1
     = MAXREVLEN"
proof -
  have d4: "derived_name pton4_example pton6_example ''192.0.2.1'' = Some ''1.2.0.192.in-addr.arpa''"
    by (simp add: derived_name_def pton4_example_def in_addr_arpa_example)
  have d6: "derived_name pton4_example pton6_example ''2001:db8::1'' =
      Some ''1.0.0.0.0.0.0.0.0.0.0.0.0.0.0.0.0.0.0.0.0.0.0.0.8.b.d.0.1.0.0.2.ip6.arpa''"
    by (simp add: derived_name_def pton4_example_def pton6_example_def ip6_arpa_example)
  have m: "MAXREVLEN \<le> 73" by (simp add: MAXREVLEN_def)
  have h4: "(pton4_example ''192.0.2.1'' = Some [192, 0, 2, 1] \<and> length [192, 0, 2, 1 :: u8] = 4)
      \<or> (pton4_example ''192.0.2.1'' = None \<and> pton6_example ''192.0.2.1'' = Some []
          \<and> length ([] :: u8 list) = 16)"
    by (simp add: pton4_example_def)
  have h6: "(pton4_example ''2001:db8::1'' = Some [] \<and> length ([] :: u8 list) = 4)
      \<or> (pton4_example ''2001:db8::1'' = None
          \<and> pton6_example ''2001:db8::1'' = Some [32, 1, 13, 184, 0, 0, 0, 0, 0, 0, 0, 0, 0, 0, 0, 1]
          \<and> length [32, 1, 13, 184, 0, 0, 0, 0, 0, 0, 0, 0, 0, 0, 0, 1 :: u8] = 16)"
    by (simp add: pton4_example_def pton6_example_def)
  from maxrevlen_suffices [of 73 pton4_example "''192.0.2.1''" "[192, 0, 2, 1]" pton6_example
      "[]" False, OF m h4] d4
  have 1: "reverse_lookup False pton4_example pton6_example ''192.0.2.1'' 73
      = Returned (Buf ''1.2.0.192.in-addr.arpa'')
    \<and> length ''1.2.0.192.in-addr.arpa'' + 1 \<le> MAXREVLEN" by auto
  have n4: "pton4_example ''2001:db8::1'' = None" by (simp add: pton4_example_def)
  from maxrevlen_suffices [of 73 pton4_example "''2001:db8::1''" "[]" pton6_example
      "[32, 1, 13, 184, 0, 0, 0, 0, 0, 0, 0, 0, 0, 0, 0, 1]" False, OF m h6] d6 n4
  have 2: "reverse_lookup False pton4_example pton6_example ''2001:db8::1'' 73
      = Returned (Buf ''1.0.0.0.0.0.0.0.0.0.0.0.0.0.0.0.0.0.0.0.0.0.0.0.8.b.d.0.1.0.0.2.ip6.arpa'')
    \<and> length ''1.0.0.0.0.0.0.0.0.0.0.0.0.0.0.0.0.0.0.0.0.0.0.0.8.b.d.0.1.0.0.2.ip6.arpa'' + 1
      = MAXREVLEN" by auto
  from 1 2 show ?thesis by simp
qed

section \<open>The direct exchange\<close>

text \<open>
  Claim C8. \<open>res_ssend\<close> waits once, with a timeout of 5000 milliseconds. When the
  wait ends without a readable datagram (\<open>poll\<close> returns 0, or fails) it reports
  \<open>poll timeout\<close>, closes the socket and returns -1, without receiving, sending again or
  waiting again. On every path where the socket was created it is closed exactly once,
  as the last action; where \<open>socket\<close> failed there is nothing to close.
\<close>

theorem res_ssend_timeout_and_close:
  assumes "res_ssend s srv msg msglen anslen = (ret, answer, tr)"
  shows "(polls tr = [] \<or> polls tr = [(socket_ret s, 5000)])
       \<and> (0 \<le> socket_ret s \<and> 0 \<le> bind_ret s \<and> 0 \<le> sendto_ret s \<and> poll_ret s \<le> 0 \<longrightarrow>
            ret = -1 \<and>
            tr = [Socket (ai_family srv), Bind (socket_ret s),
                  Sendto (socket_ret s) (bytes_of msg msglen), Poll (socket_ret s) 5000,
                  Stderr ''poll timeout'', Close (socket_ret s)])
       \<and> (0 \<le> socket_ret s \<longrightarrow>
            closes tr = [socket_ret s] \<and> last tr = Close (socket_ret s))
       \<and> (socket_ret s < 0 \<longrightarrow> ret = -1 \<and> closes tr = [])"
  using assms
  by (auto simp: res_ssend_def Let_def POLL_TIMEOUT_def split: if_splits option.splits)

theorem res_ssend_timeout_and_close_witness:
  "fst (res_ssend \<lparr>socket_ret = 3, bind_ret = 0, sendto_ret = 19, poll_ret = 0, recvfrom_ret = None\<rparr>
          \<lparr>ai_family = 2, ai_addrlen = 16\<rparr> (buf_mem query_a (\<lambda>i. 0)) 19 1024) = -1
   \<and> snd (snd (res_ssend \<lparr>socket_ret = 3, bind_ret = 0, sendto_ret = 19, poll_ret = 0, recvfrom_ret = None\<rparr>
          \<lparr>ai_family = 2, ai_addrlen = 16\<rparr> (buf_mem query_a (\<lambda>i. 0)) 19 1024))
      = [Socket 2, Bind 3, Sendto 3 (bytes_of (buf_mem query_a (\<lambda>i. 0)) 19), Poll 3 5000,
         Stderr ''poll timeout'', Close 3]"
proof -
  let ?s = "\<lparr>socket_ret = 3, bind_ret = 0, sendto_ret = 19, poll_ret = 0, recvfrom_ret = None\<rparr>"
  let ?r = "res_ssend ?s \<lparr>ai_family = 2, ai_addrlen = 16\<rparr> (buf_mem query_a (\<lambda>i. 0)) 19 1024"
  have "?r = (fst ?r, fst (snd ?r), snd (snd ?r))" by simp
  from res_ssend_timeout_and_close [OF this] show ?thesis by simp
qed

section \<open>The events of the program\<close>

lemma skip_labels_events:
  "list_all parse_event tr \<Longrightarrow> list_all parse_event (snd (skip_labels r rlen p tr))"
proof (induction r rlen p tr rule: skip_labels.induct)
  case (1 r rlen p tr)
  show ?case
  proof (cases "int p < rlen \<and> (ucast (r p) :: 32 word) - 1 < 127")
    case True
    then have "skip_labels r rlen p tr = skip_labels r rlen (p + 1) (tr @ [Rd p])"
      by (subst skip_labels.simps) simp
    moreover have "list_all parse_event (tr @ [Rd p])" using "1.prems" by simp
    ultimately show ?thesis using "1.IH" True by simp
  next
    case False
    then show ?thesis using "1.prems" by (subst skip_labels.simps) auto
  qed
qed

lemma bad_name_events:
  "list_all parse_event tr \<Longrightarrow> list_all parse_event (snd (bad_name r rlen p tr))"
  by (simp add: bad_name_def)

lemma questions_events:
  "list_all parse_event tr \<Longrightarrow> list_all parse_event (snd (questions r rlen n p tr))"
proof (induction n arbitrary: p tr)
  case 0
  then show ?case by simp
next
  case (Suc n)
  obtain p1 t1 where s: "skip_labels r rlen p tr = (p1, t1)" by (cases "skip_labels r rlen p tr")
  obtain bad t2 where b: "bad_name r rlen p1 t1 = (bad, t2)" by (cases "bad_name r rlen p1 t1")
  have "list_all parse_event t1" using skip_labels_events [OF Suc.prems, of r rlen p] s by simp
  then have t2: "list_all parse_event t2" using bad_name_events [of t1 r rlen p1] b by simp
  then have "list_all parse_event (t2 @ [Rd p1])" by simp
  from Suc.IH [OF this] t2 show ?case by (simp add: s b)
qed

lemma answers_events:
  assumes cb: "\<And>rr d l a. list_all parse_event (snd (cb rr d l a))"
  shows "list_all parse_event tr \<Longrightarrow> list_all parse_event (snd (answers cb r rlen n p tr))"
proof (induction n arbitrary: p tr)
  case 0
  then show ?case by simp
next
  case (Suc n)
  obtain p1 t1 where s: "skip_labels r rlen p tr = (p1, t1)" by (cases "skip_labels r rlen p tr")
  obtain bad t2 where b: "bad_name r rlen p1 t1 = (bad, t2)" by (cases "bad_name r rlen p1 t1")
  have "list_all parse_event t1" using skip_labels_events [OF Suc.prems, of r rlen p] s by simp
  then have t2: "list_all parse_event t2" using bad_name_events [of t1 r rlen p1] b by simp
  show ?case
  proof (cases bad)
    case True
    then show ?thesis using t2 by (simp add: s b)
  next
    case False
    define q where "q = p1 + 1 + nonzero (r p1)"
    define len where "len = unat (r (q + 8)) * 256 + unat (r (q + 9))"
    define t3 where "t3 = t2 @ [Rd p1, Rd (q + 8), Rd (q + 9)]"
    define rr where "rr = unat (r (q + 1))"
    define t4 where "t4 = t3 @ [Rd (q + 1), Cb rr (q + 10) len p] @ snd (cb rr (q + 10) len p)"
    have t3: "list_all parse_event t3" using t2 by (simp add: t3_def)
    then have t4: "list_all parse_event t4" using cb [of rr "q + 10" len p] by (simp add: t4_def)
    have eq: "answers cb r rlen (Suc n) p tr =
        (if int (q + len) > rlen then (-1, t3)
         else if fst (cb rr (q + 10) len p) < 0 then (-1, t4)
         else answers cb r rlen n (q + 10 + len) t4)"
      using False by (simp add: s b Let_def q_def len_def t3_def rr_def t4_def)
    show ?thesis unfolding eq using t3 t4 Suc.IH [OF t4] by simp
  qed
qed

lemma dns_print_events: "list_all parse_event (snd (dns_print dx m mlen rr d l a))"
  by (simp add: dns_print_def)

lemma dns_parse_events:
  assumes cb: "\<And>rr d l a. list_all parse_event (snd (cb rr d l a))"
  shows "list_all parse_event (snd (dns_parse cb r rlen))"
proof -
  let ?t0 = "[Rd 3, Rd 4, Rd 5, Rd 6, Rd 7]"
  have t0: "list_all parse_event ?t0" by simp
  obtain x t1 where q: "questions r rlen (unat (r 4) * 256 + unat (r 5)) 12 ?t0 = (x, t1)"
    by (cases "questions r rlen (unat (r 4) * 256 + unat (r 5)) 12 ?t0")
  have t1: "list_all parse_event t1"
    using questions_events [OF t0, of r rlen "unat (r 4) * 256 + unat (r 5)" 12] q by simp
  show ?thesis
    using t1 answers_events [of cb t1 r rlen, OF cb t1]
    by (auto simp: dns_parse_def Let_def q split: option.splits)
qed

text \<open>The events of an exchange: no parse, and no exchange of another query.\<close>

lemma res_ssend_events:
  "res_ssend s srv msg msglen anslen = (ret, answer, t) \<Longrightarrow>
     Parse j \<notin> set t \<and> Exchange j \<notin> set t"
  by (auto simp: res_ssend_def Let_def split: if_splits option.splits)

lemma exchange_events:
  assumes "exchange e argv i q qlen srv = (x, t)"
  shows "Parse j \<notin> set t \<and> (Exchange j \<in> set t \<longrightarrow> j = i)"
proof -
  have r: "Parse j \<notin> set (snd (resolve_server e s)) \<and> Exchange j \<notin> set (snd (resolve_server e s))"
    for s
    by (simp add: resolve_server_def split: option.splits)
  show ?thesis
  proof (cases "i = 0")
    case True
    then show ?thesis using assms r [of "''127.0.0.1''"] r [of "argv ! 2"]
      by (auto simp: exchange_def split: if_splits prod.splits option.splits
          dest: res_ssend_events)
  next
    case False
    then show ?thesis using assms
      by (auto simp: exchange_def split: if_splits prod.splits option.splits
          dest: res_ssend_events)
  qed
qed

lemma parse_event_not_control:
  "list_all parse_event t \<Longrightarrow> Parse j \<notin> set t \<and> Exchange j \<notin> set t"
  by (auto simp: list_all_iff)

lemma iteration_events:
  assumes "iteration e argv queries i srv = (x, t)"
  shows "(Parse j \<in> set t \<longrightarrow> j = i) \<and> (Exchange j \<in> set t \<longrightarrow> j = i)"
proof -
  obtain qlen q where qi: "queries ! i = (qlen, q)" by (cases "queries ! i")
  obtain y t1 where ex: "exchange e argv i q qlen srv = (y, t1)"
    by (cases "exchange e argv i q qlen srv")
  note ev = exchange_events [OF ex, of j]
  have dp: "Parse j \<notin> set (snd (dns_parse (dns_print dx m ml) m' ml'))
      \<and> Exchange j \<notin> set (snd (dns_parse (dns_print dx m ml) m' ml'))" for dx m ml m' ml'
    by (rule parse_event_not_control) (rule dns_parse_events, rule dns_print_events)
  show ?thesis
  proof (cases y)
    case (Inl a)
    then show ?thesis using assms ev by (auto simp: iteration_def qi ex split: if_splits)
  next
    case (Inr b)
    obtain srv' rlen answer where b: "b = (srv', rlen, answer)" by (cases b)
    let ?m = "buf_mem answer (stale e i)"
    obtain res t3 where p: "dns_parse (dns_print (dn_expand e) ?m rlen) ?m rlen = (res, t3)"
      by (cases "dns_parse (dns_print (dn_expand e) ?m rlen) ?m rlen")
    from dp [of "dn_expand e" ?m rlen ?m rlen] p
    have t3: "Parse j \<notin> set t3 \<and> Exchange j \<notin> set t3" by simp
    show ?thesis using assms ev t3
      by (auto simp: iteration_def qi ex Inr b p Let_def split: if_splits)
  qed
qed

lemma main_loop_extends:
  "\<exists>t. snd (main_loop e argv queries i srv tr) = tr @ t \<and> (\<forall>j. Exchange j \<in> set t \<longrightarrow> i \<le> j)"
proof (induction "length queries - i" arbitrary: i srv tr)
  case 0
  then show ?case by (subst main_loop.simps) simp
next
  case (Suc n)
  then have i: "i < length queries" and n: "n = length queries - (i + 1)" by simp_all
  obtain x t where it: "iteration e argv queries i srv = (x, t)"
    by (cases "iteration e argv queries i srv")
  have ev: "\<forall>j. Exchange j \<in> set t \<longrightarrow> i \<le> j" using iteration_events [OF it] by auto
  show ?case
  proof (cases x)
    case (Inl a)
    then show ?thesis using i it ev by (subst main_loop.simps) simp
  next
    case (Inr srv')
    from Suc.hyps(1) [OF n, of "Some srv'" "tr @ t"]
    obtain t' where t': "snd (main_loop e argv queries (i + 1) (Some srv') (tr @ t)) = (tr @ t) @ t'"
      "\<forall>j. Exchange j \<in> set t' \<longrightarrow> i + 1 \<le> j" by blast
    have "snd (main_loop e argv queries i srv tr) = tr @ (t @ t')"
      using i it Inr t'(1) by (subst main_loop.simps) simp
    moreover have "\<forall>j. Exchange j \<in> set (t @ t') \<longrightarrow> i \<le> j" using ev t'(2) by auto
    ultimately show ?thesis by blast
  qed
qed

section \<open>The loop of main\<close>

lemma main_loop_stop:
  "i < length queries \<Longrightarrow> iteration e argv queries i srv = (Inl ex, t) \<Longrightarrow>
     main_loop e argv queries i srv tr = (ex, tr @ t)"
  by (subst main_loop.simps) simp

lemma main_loop_continue:
  "i < length queries \<Longrightarrow> iteration e argv queries i srv = (Inr srv', t) \<Longrightarrow>
     main_loop e argv queries i srv tr = main_loop e argv queries (i + 1) (Some srv') (tr @ t)"
  by (subst main_loop.simps) simp

lemma main_loop_contains:
  assumes "i < length queries" and "iteration e argv queries i srv = (x, t)"
  shows "\<exists>t'. snd (main_loop e argv queries i srv tr) = tr @ t @ t'"
proof (cases x)
  case (Inl ex)
  with main_loop_stop [OF assms(1), of e argv srv ex t tr] assms(2) show ?thesis by simp
next
  case (Inr srv')
  with main_loop_continue [OF assms(1), of e argv srv srv' t tr] assms(2)
  have "main_loop e argv queries i srv tr = main_loop e argv queries (i + 1) (Some srv') (tr @ t)"
    by simp
  moreover obtain t' where "snd (main_loop e argv queries (i + 1) (Some srv') (tr @ t)) = (tr @ t) @ t'"
    using main_loop_extends [of e argv queries "i + 1" "Some srv'" "tr @ t"] by blast
  ultimately show ?thesis by simp
qed

text \<open>
  The comparison of the identifiers, in any iteration of the loop of \<open>main\<close> whose
  query was built and sent. The two bytes compared with the query are those the array
  \<open>response\<close> holds after the exchange: a failed exchange is reported as
  \<open>cannot send the query\<close>; if the bytes differ the program reports
  \<open>qsections don't match\<close> and returns \<open>EXIT_FAILURE\<close>, with no parse event in the
  iteration; if they agree the array is handed to \<open>dns_parse\<close>.
\<close>

lemma id_mismatch_rejected:
  assumes "i < length queries" and "queries ! i = (qlen, q)" and "0 \<le> qlen"
    and "exchange e argv i q qlen srv = (Inr (srv', rlen, answer), t1)"
    and "response = buf_mem answer (stale e i)"
    and "t2 = t1 @ (if int i = int (length queries) - 1 then [FreeAddrInfo] else [])"
  shows "(rlen < 0 \<longrightarrow>
            main_loop e argv queries i srv tr =
              (Returned EXIT_FAILURE, tr @ t2 @ [Stderr ''cannot send the query'']))
       \<and> (0 \<le> rlen \<and> (q 0 \<noteq> response 0 \<or> q 1 \<noteq> response 1) \<longrightarrow>
            main_loop e argv queries i srv tr =
              (Returned EXIT_FAILURE, tr @ t2 @ [Stderr ''qsections don't match''])
            \<and> (\<forall>j. Parse j \<notin> set t2) \<and> EXIT_FAILURE \<noteq> 0)
       \<and> (0 \<le> rlen \<and> q 0 = response 0 \<and> q 1 = response 1 \<longrightarrow>
            (\<exists>t3. snd (main_loop e argv queries i srv tr) = tr @ t2 @ Parse i # t3))"
proof (intro conjI impI)
  assume "rlen < 0"
  then have "iteration e argv queries i srv =
      (Inl (Returned EXIT_FAILURE), t2 @ [Stderr ''cannot send the query''])"
    using assms by (simp add: iteration_def Let_def)
  from main_loop_stop [OF assms(1) this]
  show "main_loop e argv queries i srv tr =
      (Returned EXIT_FAILURE, tr @ t2 @ [Stderr ''cannot send the query''])" .
next
  assume h: "0 \<le> rlen \<and> (q 0 \<noteq> response 0 \<or> q 1 \<noteq> response 1)"
  then have "iteration e argv queries i srv =
      (Inl (Returned EXIT_FAILURE), t2 @ [Stderr ''qsections don't match''])"
    using assms by (auto simp: iteration_def Let_def)
  from main_loop_stop [OF assms(1) this]
  show "main_loop e argv queries i srv tr =
      (Returned EXIT_FAILURE, tr @ t2 @ [Stderr ''qsections don't match''])" .
  show "\<forall>j. Parse j \<notin> set t2"
    using exchange_events [OF assms(4)] assms(6) by simp
  show "EXIT_FAILURE \<noteq> 0" by (simp add: EXIT_FAILURE_def)
next
  assume h: "0 \<le> rlen \<and> q 0 = response 0 \<and> q 1 = response 1"
  obtain res t3 where p:
    "dns_parse (dns_print (dn_expand e) response rlen) response rlen = (res, t3)"
    by (cases "dns_parse (dns_print (dn_expand e) response rlen) response rlen")
  have "snd (iteration e argv queries i srv) =
      t2 @ [Parse i] @ t3 @ (if res < 0 then [Stderr ''decode failure''] else [])"
    using h assms p by (simp add: iteration_def Let_def)
  then have "iteration e argv queries i srv =
      (fst (iteration e argv queries i srv),
       t2 @ [Parse i] @ t3 @ (if res < 0 then [Stderr ''decode failure''] else []))"
    by (metis prod.collapse)
  from main_loop_contains [OF assms(1) this, of tr]
  show "\<exists>t3. snd (main_loop e argv queries i srv tr) = tr @ t2 @ Parse i # t3"
    by auto
qed

lemma exchange_run_env:
  "exchange (run_env reply) [''nslookup'', ''a'', ''10.0.0.53''] 0 (buf_mem query_a (\<lambda>i. 0)) 19 None =
     (Inr (\<lparr>ai_family = 2, ai_addrlen = 16\<rparr>, int (length (take 1024 reply)), take 1024 reply),
      [Resolve ''10.0.0.53'', Exchange 0, Socket 2, Bind 3, Sendto 3 query_a, Poll 3 5000,
       Recvfrom 3 1024, Close 3])"
proof -
  have "bytes_of (buf_mem query_a (\<lambda>i. 0)) 19 = query_a" by code_simp
  then show ?thesis
    by (simp add: exchange_def resolve_server_def res_ssend_def run_env_def Let_def
        POLL_TIMEOUT_def)
qed

lemma id_mismatch_rejected_example:
  "main_loop (run_env response_other_id) [''nslookup'', ''a'', ''10.0.0.53'']
     (build_queries (run_env response_other_id) ''a'' ''a'') 0 None []
   = (Returned EXIT_FAILURE,
      [Resolve ''10.0.0.53'', Exchange 0, Socket 2, Bind 3, Sendto 3 query_a, Poll 3 5000,
       Recvfrom 3 1024, Close 3, Stderr ''qsections don't match''])"
proof -
  let ?e = "run_env response_other_id"
  let ?q = "buf_mem query_a (\<lambda>i. 0)"
  let ?qs = "build_queries ?e ''a'' ''a''"
  let ?t1 = "[Resolve ''10.0.0.53'', Exchange 0, Socket 2, Bind 3, Sendto 3 query_a, Poll 3 5000,
       Recvfrom 3 1024, Close 3]"
  have qs: "?qs = [(19, ?q), (19, ?q)]" by (simp add: build_queries_def run_env_def)
  have ex: "exchange ?e [''nslookup'', ''a'', ''10.0.0.53''] 0 ?q 19 None =
      (Inr (\<lparr>ai_family = 2, ai_addrlen = 16\<rparr>, 35, response_other_id), ?t1)"
    using exchange_run_env [of response_other_id] by (simp add: response_other_id_def)
  have st: "stale ?e 0 = (\<lambda>j. 0)" by (simp add: run_env_def)
  have differ: "?q 1 \<noteq> buf_mem response_other_id (\<lambda>j. 0) 1"
    by (simp add: buf_mem_def query_a_def response_other_id_def)
  from id_mismatch_rejected [of 0 ?qs 19 ?q ?e "[''nslookup'', ''a'', ''10.0.0.53'']" None
      "\<lparr>ai_family = 2, ai_addrlen = 16\<rparr>" 35 response_other_id ?t1
      "buf_mem response_other_id (\<lambda>j. 0)" ?t1 "[]"] ex differ
  show ?thesis by (simp add: qs st)
qed

text \<open>
  For a datagram of at least two bytes these are the first two bytes of the response.
\<close>

lemma id_mismatch_rejected_datagram:
  assumes "i < length queries" and "queries ! i = (qlen, q)" and "0 \<le> qlen"
    and "exchange e argv i q qlen srv = (Inr (srv', rlen, answer), t1)"
    and "2 \<le> length answer" and "0 \<le> rlen"
    and "q 0 \<noteq> answer ! 0 \<or> q 1 \<noteq> answer ! 1"
  shows "main_loop e argv queries i srv tr =
      (Returned EXIT_FAILURE,
       tr @ t1 @ (if int i = int (length queries) - 1 then [FreeAddrInfo] else [])
          @ [Stderr ''qsections don't match''])
    \<and> (\<forall>j. Parse j \<notin> set t1)"
proof -
  have "q 0 \<noteq> buf_mem answer (stale e i) 0 \<or> q 1 \<noteq> buf_mem answer (stale e i) 1"
    using assms(5,7) by (auto simp: buf_mem_def)
  with id_mismatch_rejected [OF assms(1-4) refl refl, of tr] assms(6)
  show ?thesis by simp
qed

text \<open>
  Claim C4. The claim is that a response is parsed only if its first two bytes equal the
  query's, and that any other response is reported as a mismatch. The code compares two
  bytes of the array whatever the length received, and only a negative length is refused
  before. A datagram of one byte, equal to the first byte of the identifier, is parsed
  when the array happens to hold the second byte of the identifier behind it, and so is
  an empty datagram when the array holds both: \<open>dns_parse\<close> is called and the failure is
  reported as \<open>decode failure\<close>, not as a mismatch.
\<close>

theorem short_response_parsed:
  "main (short_reply_env [18] [0, 52]) [''nslookup'', ''a'', ''10.0.0.53'']
     = (Returned EXIT_FAILURE,
        [Resolve ''10.0.0.53'', Exchange 0, Socket 2, Bind 3, Sendto 3 query_a, Poll 3 5000,
         Recvfrom 3 1024, Close 3, Parse 0, Stderr ''decode failure''])
   \<and> main (short_reply_env [] [18, 52]) [''nslookup'', ''a'', ''10.0.0.53'']
     = (Returned EXIT_FAILURE,
        [Resolve ''10.0.0.53'', Exchange 0, Socket 2, Bind 3, Sendto 3 query_a, Poll 3 5000,
         Recvfrom 3 1024, Close 3, Parse 0, Stderr ''decode failure''])"
  by code_simp

lemma exchange_first_Inl:
  assumes "length argv = 2 \<or> length argv = 3"
    and "exchange e argv 0 q qlen srv = (Inl ex, t)"
  shows "ex = Returned EXIT_FAILURE"
  using assms by (auto simp: exchange_def split: if_splits prod.splits option.splits)

lemma first_iteration:
  assumes argc: "length argv = 2 \<or> length argv = 3"
    and q: "queries ! 0 = res_mkquery e (argv ! 1) ns_t_a"
  shows "(first_query_fails e argv \<longrightarrow>
            (\<exists>t. iteration e argv queries 0 None = (Inl (Returned EXIT_FAILURE), t)))
       \<and> (\<not> first_query_fails e argv \<longrightarrow>
            (\<exists>srv' t. iteration e argv queries 0 None = (Inr srv', t) \<and> Parse 0 \<in> set t))"
proof -
  obtain qlen q0 where mk: "res_mkquery e (argv ! 1) ns_t_a = (qlen, q0)"
    by (cases "res_mkquery e (argv ! 1) ns_t_a")
  obtain y t1 where ex: "exchange e argv 0 q0 qlen None = (y, t1)"
    by (cases "exchange e argv 0 q0 qlen None")
  note q' = q [simplified] and mk' = mk [simplified]
  show ?thesis
  proof (cases "qlen < 0")
    case True
    then show ?thesis by (simp add: iteration_def first_query_fails_def q q' mk mk')
  next
    case False
    note qlen = this
    show ?thesis
    proof (cases y)
      case (Inl a)
      with exchange_first_Inl [OF argc, of e q0 qlen None a t1] ex
      have "a = Returned EXIT_FAILURE" by simp
      then show ?thesis using qlen Inl
        by (simp add: iteration_def first_query_fails_def q q' mk mk' ex)
    next
      case (Inr b)
      obtain srv' rlen answer where b: "b = (srv', rlen, answer)" by (cases b)
      let ?m = "buf_mem answer (stale e 0)"
      obtain res t3 where p: "dns_parse (dns_print (dn_expand e) ?m rlen) ?m rlen = (res, t3)"
        by (cases "dns_parse (dns_print (dn_expand e) ?m rlen) ?m rlen")
      show ?thesis using qlen
        by (auto simp: iteration_def first_query_fails_def q q' mk mk' ex Inr b p Let_def)
    qed
  qed
qed

text \<open>
  Claim C10. In a forward lookup, when the first query fails (it cannot be built, the
  server does not resolve, the exchange fails, the identifiers differ or the response
  does not decode) \<open>main\<close> returns \<open>EXIT_FAILURE\<close> and the second query is never
  exchanged; and whenever the second query is exchanged, the first has not failed and
  its response was parsed before.
\<close>

theorem second_query_after_first:
  assumes "length argv = 2 \<or> length argv = 3"
    and "reverse_lookup (ndebug e) (inet_pton4 e) (inet_pton6 e) (argv ! 1) MAXREVLEN
           = Returned res"
    and "name_of res (argv ! 1) = argv ! 1"
  shows "(first_query_fails e argv \<longrightarrow>
            fst (main e argv) = Returned EXIT_FAILURE \<and> EXIT_FAILURE \<noteq> 0
            \<and> Exchange 1 \<notin> set (snd (main e argv)))
       \<and> (Exchange 1 \<in> set (snd (main e argv)) \<longrightarrow>
            \<not> first_query_fails e argv
            \<and> (\<exists>pre post. snd (main e argv) = pre @ Exchange 1 # post \<and> Parse 0 \<in> set pre))"
proof -
  let ?qs = "[res_mkquery e (argv ! 1) ns_t_a, res_mkquery e (argv ! 1) ns_t_aaaa]"
  have m: "main e argv = main_loop e argv ?qs 0 None []"
    using assms by (auto simp: main_def build_queries_def)
  have q0: "?qs ! 0 = res_mkquery e (argv ! 1) ns_t_a" by simp
  note fi = first_iteration [OF assms(1) q0]
  have fails: "fst (main e argv) = Returned EXIT_FAILURE \<and> Exchange 1 \<notin> set (snd (main e argv))"
    if f: "first_query_fails e argv"
  proof -
    from fi f obtain t where it: "iteration e argv ?qs 0 None = (Inl (Returned EXIT_FAILURE), t)"
      by blast
    have "main e argv = (Returned EXIT_FAILURE, t)"
      unfolding m using main_loop_stop [of 0 ?qs e argv None "Returned EXIT_FAILURE" t "[]"] it
      by simp
    moreover have "Exchange 1 \<notin> set t" using iteration_events [OF it, of 1] by simp
    ultimately show ?thesis by simp
  qed
  have ok: "\<exists>pre post. snd (main e argv) = pre @ Exchange 1 # post \<and> Parse 0 \<in> set pre"
    if nf: "\<not> first_query_fails e argv" and x: "Exchange 1 \<in> set (snd (main e argv))"
  proof -
    from fi nf obtain srv' t where it: "iteration e argv ?qs 0 None = (Inr srv', t)"
      and p0: "Parse 0 \<in> set t" by blast
    have "main e argv = main_loop e argv ?qs (0 + 1) (Some srv') ([] @ t)"
      unfolding m using main_loop_continue [of 0 ?qs e argv None srv' t "[]"] it by simp
    moreover obtain t' where "snd (main_loop e argv ?qs (0 + 1) (Some srv') ([] @ t)) = ([] @ t) @ t'"
      using main_loop_extends [of e argv ?qs "0 + 1" "Some srv'" "[] @ t"] by blast
    ultimately have tr: "snd (main e argv) = t @ t'" by simp
    have "Exchange 1 \<notin> set t" using iteration_events [OF it, of 1] by simp
    with x tr have "Exchange 1 \<in> set t'" by simp
    then obtain a b where "t' = a @ Exchange 1 # b" by (auto dest: split_list)
    with tr have "snd (main e argv) = (t @ a) @ Exchange 1 # b" by simp
    moreover have "Parse 0 \<in> set (t @ a)" using p0 by simp
    ultimately show ?thesis by blast
  qed
  show ?thesis using fails ok by (auto simp: EXIT_FAILURE_def)
qed

lemma main_run_ok: "Exchange 1 \<in> set (snd (main (run_env response_a) [''nslookup'', ''a'', ''10.0.0.53'']))"
  by code_simp

lemma fails_other: "first_query_fails (run_env response_other_id) [''nslookup'', ''a'', ''10.0.0.53'']"
  by code_simp

theorem second_query_after_first_witness:
  "fst (main (run_env response_other_id) [''nslookup'', ''a'', ''10.0.0.53''])
     = Returned EXIT_FAILURE
   \<and> Exchange 1 \<notin> set (snd (main (run_env response_other_id) [''nslookup'', ''a'', ''10.0.0.53'']))
   \<and> (\<exists>pre post. snd (main (run_env response_a) [''nslookup'', ''a'', ''10.0.0.53''])
          = pre @ Exchange 1 # post \<and> Parse 0 \<in> set pre)"
proof -
  let ?argv = "[''nslookup'', ''a'', ''10.0.0.53'']"
  have argc: "length ?argv = 2 \<or> length ?argv = 3" by simp
  have rl: "reverse_lookup (ndebug (run_env r)) (inet_pton4 (run_env r)) (inet_pton6 (run_env r))
      (?argv ! 1) MAXREVLEN = Returned Addr" for r
    by (simp add: run_env_def reverse_lookup_def MAXREVLEN_def)
  have nm: "name_of Addr (?argv ! 1) = ?argv ! 1" by (simp add: name_of_def)
  from second_query_after_first [OF argc rl nm, of response_other_id] fails_other
  have 1: "fst (main (run_env response_other_id) ?argv) = Returned EXIT_FAILURE
      \<and> Exchange 1 \<notin> set (snd (main (run_env response_other_id) ?argv))" by blast
  from second_query_after_first [OF argc rl nm, of response_a] main_run_ok
  have 2: "\<exists>pre post. snd (main (run_env response_a) ?argv) = pre @ Exchange 1 # post
      \<and> Parse 0 \<in> set pre" by blast
  from 1 2 show ?thesis by blast
qed

end
